theory Spec2Isabelle
  imports Complex_Main "HOL-Library.Monad_Syntax"
begin

section \<open>Errors raised by the modelled Python code\<close>

datatype py_error =
  ZeroDivisionError | ValueError | TypeError | KeyError | AttributeError | NameError

section \<open>Double precision arithmetic\<close>

text \<open>
  The times and rates of the planner are IEEE binary64 numbers. A number is modelled by
  the real it denotes and an arithmetic operation by the exact operation followed by
  \<open>fl\<close>, the rounding to the nearest binary64 value with ties to even: 53 significant
  bits and a least exponent of \<open>-1022\<close>, below which the spacing stays \<open>2^-1074\<close>
  (gradual underflow). Infinities and NaN have no counterpart: the model is the program
  as long as every result stays below \<open>2^1024\<close> in magnitude.

  \<open>bexp x\<close> is the binary exponent of \<open>x\<close>, with \<open>2^(bexp x) \<le> |x| < 2^(bexp x + 1)\<close>;
  \<open>is_double x\<close> says that \<open>x\<close> is a binary64 value.
\<close>

definition bexp :: "real \<Rightarrow> int" where
  "bexp x = (if x = 0 then 0 else \<lfloor>log 2 \<bar>x\<bar>\<rfloor>)"

definition round_half_even :: "real \<Rightarrow> int" where
  "round_half_even x =
     (let n = \<lfloor>x\<rfloor>; d = x - of_int n
      in if d < 1/2 then n else if 1/2 < d then n + 1 else if even n then n else n + 1)"

definition fl :: "real \<Rightarrow> real" where
  "fl x = (let e = max (bexp x) (- 1022) - 52
           in of_int (round_half_even (x / 2 powi e)) * 2 powi e)"


section \<open>Time-chunk planner (\<open>SimulatorRuntime._make_time_chunks\<close>)\<close>

text \<open>
  Quantities are modelled by their values in SI units (seconds, hertz).

  \<open>np.arange(start, stop, step)\<close> on floats. The length is the ceiling of the double
  quotient \<open>(stop - start) / step\<close>; it is zero when that is not positive, and one when
  the quotient of a difference that is not zero underflows to zero. The first element is
  \<open>start\<close>, the second is \<open>start + step\<close>, and the fill loop sets the \<open>i\<close>-th to
  \<open>start + i * delta\<close>, where \<open>delta\<close> is the difference of the first two.
\<close>

definition arange_length :: "real \<Rightarrow> real \<Rightarrow> real \<Rightarrow> nat" where
  "arange_length start stop step =
     (let next = fl (stop - start);
          val = fl (next / step);
          len = \<lceil>val\<rceil>
      in if len = 0 \<and> next \<noteq> 0 \<and> val = 0 then (if next / step < 0 then 0 else 1)
         else nat len)"

definition np_arange :: "real \<Rightarrow> real \<Rightarrow> real \<Rightarrow> real list" where
  "np_arange start stop step =
     (let next = fl (start + step);
          delta = fl (next - start)
      in map (\<lambda>i. if i = 0 then start else if i = 1 then next
                  else fl (start + fl (real i * delta)))
           [0..<arange_length start stop step])"

text \<open>Python's \<open>int(x)\<close> on a float truncates towards zero.\<close>

definition py_int :: "real \<Rightarrow> int" where
  "py_int x = (if 0 \<le> x then \<lfloor>x\<rfloor> else \<lceil>x\<rceil>)"

text \<open>
  A slice bound of Python: a negative bound counts from the end, and every bound is
  clipped to the length of the sequence.
\<close>

definition slice_bound :: "nat \<Rightarrow> int \<Rightarrow> nat" where
  "slice_bound n i = (if i < 0 then nat (int n + i) else min (nat i) n)"

definition py_slice :: "'a list \<Rightarrow> int \<Rightarrow> int \<Rightarrow> 'a list" where
  "py_slice xs a b =
     (let lo = slice_bound (length xs) a; hi = slice_bound (length xs) b
      in take (hi - lo) (drop lo xs))"

text \<open>
  The loop \<open>for i in range(n_chunks): t_chunks.append(t[i * n : (i + 1) * n])\<close>;
  \<open>range\<close> of a number that is not positive is empty.
\<close>

definition split_chunks :: "'a list \<Rightarrow> int \<Rightarrow> int \<Rightarrow> 'a list list" where
  "split_chunks t n_times_per_chunk n_chunks =
     map (\<lambda>i. py_slice t (int i * n_times_per_chunk) ((int i + 1) * n_times_per_chunk))
       [0..<nat n_chunks]"

text \<open>
  The merge step: with at least two chunks, a last chunk whose length times ten is below
  the length of the chunk before it is popped and appended to that chunk.
\<close>

definition merge_last_chunk :: "int \<Rightarrow> 'a list list \<Rightarrow> 'a list list" where
  "merge_last_chunk n_chunks t_chunks =
     (if 2 \<le> n_chunks then
        (if length (t_chunks ! (length t_chunks - 1)) * 10
              < length (t_chunks ! (length t_chunks - 2)) then
           (let last_chunk = last t_chunks;
                popped = butlast t_chunks
            in popped[length popped - 1 := popped ! (length popped - 1) @ last_chunk])
         else t_chunks)
      else t_chunks)"

text \<open>
  The chunk count is \<open>n_times // n_times_per_chunk + bool(n_times % n_times_per_chunk)\<close>
  on Python integers: floor division, which raises \<open>ZeroDivisionError\<close> on a zero divisor.
\<close>

definition n_chunks_of :: "int \<Rightarrow> int \<Rightarrow> int" where
  "n_chunks_of n_times n_times_per_chunk =
     n_times div n_times_per_chunk + (if n_times mod n_times_per_chunk \<noteq> 0 then 1 else 0)"

text \<open>
  The chunk list as it stands after the loop and before the merge step (the naive split).
  The step of the grid is \<open>1 / f_smp\<close> and the chunk size is \<open>int(chunk_len * f_smp)\<close>,
  the quotient and the product being those of doubles.
\<close>

definition naive_chunks :: "real \<Rightarrow> real \<Rightarrow> real \<Rightarrow> py_error + real list list" where
  "naive_chunks t_exp f_smp chunk_len =
     (let t = np_arange 0 t_exp (fl (1 / f_smp));
          n_times_per_chunk = py_int (fl (chunk_len * f_smp));
          n_times = int (length t)
      in if n_times_per_chunk = 0 then Inl ZeroDivisionError
         else Inr (split_chunks t n_times_per_chunk (n_chunks_of n_times n_times_per_chunk)))"

definition make_time_chunks :: "real \<Rightarrow> real \<Rightarrow> real \<Rightarrow> py_error + real list list" where
  "make_time_chunks t_exp f_smp chunk_len =
     (let t = np_arange 0 t_exp (fl (1 / f_smp));
          n_times_per_chunk = py_int (fl (chunk_len * f_smp));
          n_times = int (length t)
      in if n_times_per_chunk = 0 then Inl ZeroDivisionError
         else
           (let n_chunks = n_chunks_of n_times n_times_per_chunk;
                t_chunks = split_chunks t n_times_per_chunk n_chunks
            in Inr (merge_last_chunk n_chunks t_chunks)))"

section \<open>File name classifier (\<open>ToltecDataFileSpec._info_from_filename\<close>)\<close>

text \<open>
  File names are modelled as ASCII strings. The two regular expressions of the source are
  written as matchers that return the \<open>groupdict()\<close> of the match: every named group with
  the text it matched, or \<open>None\<close> for a group that took no part in the match. Every
  repetition in the two expressions is followed by a character outside its own class (or
  by the end of the text), so the greedy match is the only one and backtracking cannot
  find another.
\<close>

definition is_digit :: "char \<Rightarrow> bool" where
  "is_digit c = (48 \<le> (of_char c :: nat) \<and> (of_char c :: nat) \<le> 57)"

text \<open>A literal piece of the pattern.\<close>

definition lit :: "string \<Rightarrow> string \<Rightarrow> string option" where
  "lit p s = (if take (length p) s = p then Some (drop (length p) s) else None)"

text \<open>The pattern \<^verbatim>\<open>\d+\<close>: the longest non-empty run of digits.\<close>

definition digits_plus :: "string \<Rightarrow> (string \<times> string) option" where
  "digits_plus s =
     (if takeWhile is_digit s = [] then None
      else Some (takeWhile is_digit s, dropWhile is_digit s))"

text \<open>
  A piece of fixed width made of \<^verbatim>\<open>\d\<close> and literal characters, such as
  \<^verbatim>\<open>\d{4}_\d{2}_\d{2}\<close>. In the shape, \<open>d\<close> stands for a digit and any other character
  for itself.
\<close>

definition shape_char :: "char \<Rightarrow> char \<Rightarrow> bool" where
  "shape_char p c = (if p = CHR ''d'' then is_digit c else c = p)"

definition fixed_shape :: "string \<Rightarrow> string \<Rightarrow> (string \<times> string) option" where
  "fixed_shape shape s =
     (if length shape \<le> length s \<and> list_all2 shape_char shape (take (length shape) s)
      then Some (take (length shape) s, drop (length shape) s) else None)"

text \<open>
  The optional group \<^verbatim>\<open>(?:_(?P<kindstr>[^\/.]+))?\<close>: an underscore and the longest
  non-empty run of characters other than \<open>/\<close> and \<open>.\<close>; when that does not match, the
  group is skipped and \<open>kindstr\<close> is \<open>None\<close>. The group
  itself never makes the match fail.
\<close>

definition kind_char :: "char \<Rightarrow> bool" where
  "kind_char c = (c \<noteq> CHR ''/'' \<and> c \<noteq> CHR ''.'')"

definition opt_kind :: "string \<Rightarrow> (string option \<times> string) option" where
  "opt_kind s =
     (case s of
        [] \<Rightarrow> Some (None, s)
      | c # r \<Rightarrow>
          if c = CHR ''_'' \<and> takeWhile kind_char r \<noteq> []
          then Some (Some (takeWhile kind_char r), dropWhile kind_char r)
          else Some (None, s))"

text \<open>
  The end of both patterns, \<^verbatim>\<open>(?P<fileext>.+)$\<close>: a non-empty run of characters other
  than a line feed, up to the end of the text or to one final line feed.
\<close>

definition not_newline :: "char \<Rightarrow> bool" where
  "not_newline c = (c \<noteq> CHR 0x0A)"

definition ext_end :: "string \<Rightarrow> string option" where
  "ext_end s =
     (if takeWhile not_newline s \<noteq> []
         \<and> (dropWhile not_newline s = [] \<or> dropWhile not_newline s = [CHR 0x0A])
      then Some (takeWhile not_newline s) else None)"

type_synonym groupdict = "(string \<times> string option) list"

definition re_toltec_file :: "string \<Rightarrow> groupdict option" where
  "re_toltec_file filename = do {
     s1 \<leftarrow> lit ''toltec'' filename;
     (nwid, s2) \<leftarrow> digits_plus s1;
     s3 \<leftarrow> lit ''_'' s2;
     (obsid, s4) \<leftarrow> digits_plus s3;
     s5 \<leftarrow> lit ''_'' s4;
     (subobsid, s6) \<leftarrow> digits_plus s5;
     s7 \<leftarrow> lit ''_'' s6;
     (scanid, s8) \<leftarrow> digits_plus s7;
     s9 \<leftarrow> lit ''_'' s8;
     (ut, s10) \<leftarrow> fixed_shape ''dddd_dd_dd_dd_dd_dd'' s9;
     (kindstr, s11) \<leftarrow> opt_kind s10;
     s12 \<leftarrow> lit ''.'' s11;
     fileext \<leftarrow> ext_end s12;
     Some [(''interface'', Some (''toltec'' @ nwid)), (''instru'', Some ''toltec''),
           (''nwid'', Some nwid), (''obsid'', Some obsid), (''subobsid'', Some subobsid),
           (''scanid'', Some scanid), (''ut'', Some ut), (''kindstr'', kindstr),
           (''fileext'', Some fileext)]
   }"

text \<open>
  The same pattern read as a grammar: the texts that the expression accepts, cut into its
  pieces, with the groups of the cut. The matcher above is shown below to accept exactly
  these texts with exactly these groups.
\<close>

definition toltec_pattern :: "string \<Rightarrow> groupdict \<Rightarrow> bool" where
  "toltec_pattern filename g =
     (\<exists>nwid obsid subobsid scanid ut kind ext nl.
        filename = ''toltec'' @ nwid @ ''_'' @ obsid @ ''_'' @ subobsid @ ''_'' @ scanid @ ''_''
                   @ ut @ (case kind of None \<Rightarrow> [] | Some k \<Rightarrow> ''_'' @ k) @ ''.'' @ ext @ nl
        \<and> nwid \<noteq> [] \<and> list_all is_digit nwid
        \<and> obsid \<noteq> [] \<and> list_all is_digit obsid
        \<and> subobsid \<noteq> [] \<and> list_all is_digit subobsid
        \<and> scanid \<noteq> [] \<and> list_all is_digit scanid
        \<and> list_all2 shape_char ''dddd_dd_dd_dd_dd_dd'' ut
        \<and> (case kind of None \<Rightarrow> True | Some k \<Rightarrow> k \<noteq> [] \<and> list_all kind_char k)
        \<and> ext \<noteq> [] \<and> list_all not_newline ext
        \<and> (nl = [] \<or> nl = [CHR 0x0A])
        \<and> g = [(''interface'', Some (''toltec'' @ nwid)), (''instru'', Some ''toltec''),
                (''nwid'', Some nwid), (''obsid'', Some obsid), (''subobsid'', Some subobsid),
                (''scanid'', Some scanid), (''ut'', Some ut), (''kindstr'', kind),
                (''fileext'', Some ext)])"

definition re_wyatt_file :: "string \<Rightarrow> groupdict option" where
  "re_wyatt_file filename = do {
     s1 \<leftarrow> lit ''wyatt'' filename;
     s2 \<leftarrow> lit ''_'' s1;
     (ut, s3) \<leftarrow> fixed_shape ''dddd-dd-dd'' s2;
     s4 \<leftarrow> lit ''_'' s3;
     (obsid, s5) \<leftarrow> digits_plus s4;
     s6 \<leftarrow> lit ''_'' s5;
     (subobsid, s7) \<leftarrow> digits_plus s6;
     s8 \<leftarrow> lit ''_'' s7;
     (scanid, s9) \<leftarrow> digits_plus s8;
     (kindstr, s10) \<leftarrow> opt_kind s9;
     s11 \<leftarrow> lit ''.'' s10;
     fileext \<leftarrow> ext_end s11;
     Some [(''interface'', Some ''wyatt''), (''instru'', Some ''wyatt''),
           (''ut'', Some ut), (''obsid'', Some obsid), (''subobsid'', Some subobsid),
           (''scanid'', Some scanid), (''kindstr'', kindstr), (''fileext'', Some fileext)]
   }"

text \<open>
  The values of the \<open>info\<close> dictionary: strings, integers, time stamps and Python's
  \<open>None\<close>.
\<close>

record datetime =
  year :: nat
  month :: nat
  day :: nat
  hour :: nat
  minute :: nat
  second :: nat

datatype pyval = VNone | VStr string | VInt int | VDate datetime

text \<open>
  \<open>int(v)\<close> on the text of a \<^verbatim>\<open>\d+\<close> group: its decimal value. Any other text (none
  reaches it from the two patterns) is answered by \<open>ValueError\<close>.
\<close>

definition digit_val :: "char \<Rightarrow> nat" where
  "digit_val c = of_char c - 48"

definition nat_of_digits :: "string \<Rightarrow> nat" where
  "nat_of_digits ds = foldl (\<lambda>n c. 10 * n + digit_val c) 0 ds"

definition py_int_str :: "string \<Rightarrow> py_error + int" where
  "py_int_str v =
     (if v \<noteq> [] \<and> list_all is_digit v then Inr (int (nat_of_digits v)) else Inl ValueError)"

text \<open>
  \<open>datetime.strptime\<close> on a text of digit fields of the widths 4, 2, 2, 2, 2, 2 (the only
  texts the patterns let through): the fields must be a date and time that exists, with
  a year from 1 to 9999 and seconds up to 59; otherwise \<open>ValueError\<close> is raised.
\<close>

definition is_leap :: "nat \<Rightarrow> bool" where
  "is_leap y = (y mod 4 = 0 \<and> (y mod 100 \<noteq> 0 \<or> y mod 400 = 0))"

definition days_in_month :: "nat \<Rightarrow> nat \<Rightarrow> nat" where
  "days_in_month y m =
     (if m = 2 then (if is_leap y then 29 else 28)
      else if m = 4 \<or> m = 6 \<or> m = 9 \<or> m = 11 then 30 else 31)"

definition make_datetime :: "nat \<Rightarrow> nat \<Rightarrow> nat \<Rightarrow> nat \<Rightarrow> nat \<Rightarrow> nat \<Rightarrow> py_error + datetime" where
  "make_datetime Y m d H M S =
     (if 1 \<le> Y \<and> Y \<le> 9999 \<and> 1 \<le> m \<and> m \<le> 12 \<and> 1 \<le> d \<and> d \<le> days_in_month Y m
         \<and> H \<le> 23 \<and> M \<le> 59 \<and> S \<le> 59
      then Inr \<lparr>year = Y, month = m, day = d, hour = H, minute = M, second = S\<rparr>
      else Inl ValueError)"

text \<open>The format \<^verbatim>\<open>%Y_%m_%d_%H_%M_%S\<close> of the TolTEC files.\<close>

definition strptime_toltec :: "string \<Rightarrow> py_error + datetime" where
  "strptime_toltec v =
     (if fixed_shape ''dddd_dd_dd_dd_dd_dd'' v = Some (v, []) then
        make_datetime (nat_of_digits (take 4 v)) (nat_of_digits (take 2 (drop 5 v)))
          (nat_of_digits (take 2 (drop 8 v))) (nat_of_digits (take 2 (drop 11 v)))
          (nat_of_digits (take 2 (drop 14 v))) (nat_of_digits (take 2 (drop 17 v)))
      else Inl ValueError)"

text \<open>The format \<^verbatim>\<open>%Y-%m-%d\<close> of the Wyatt files; the time of day is midnight.\<close>

definition strptime_wyatt :: "string \<Rightarrow> py_error + datetime" where
  "strptime_wyatt v =
     (if fixed_shape ''dddd-dd-dd'' v = Some (v, []) then
        make_datetime (nat_of_digits (take 4 v)) (nat_of_digits (take 2 (drop 5 v)))
          (nat_of_digits (take 2 (drop 8 v))) 0 0 0
      else Inl ValueError)"

text \<open>
  The dispatch tables: \<open>dispatch.get(k, lambda v: v)(v)\<close>. A converter applied to the
  \<open>None\<close> of an unmatched group raises \<open>TypeError\<close>; the identity keeps it.
\<close>

definition conv_int :: "string option \<Rightarrow> py_error + pyval" where
  "conv_int v =
     (case v of None \<Rightarrow> Inl TypeError
      | Some s \<Rightarrow> (case py_int_str s of Inl e \<Rightarrow> Inl e | Inr n \<Rightarrow> Inr (VInt n)))"

definition conv_date :: "(string \<Rightarrow> py_error + datetime) \<Rightarrow> string option \<Rightarrow> py_error + pyval" where
  "conv_date f v =
     (case v of None \<Rightarrow> Inl TypeError
      | Some s \<Rightarrow> (case f s of Inl e \<Rightarrow> Inl e | Inr d \<Rightarrow> Inr (VDate d)))"

definition conv_id :: "string option \<Rightarrow> py_error + pyval" where
  "conv_id v = (case v of None \<Rightarrow> Inr VNone | Some s \<Rightarrow> Inr (VStr s))"

definition dispatch_toltec :: "string \<Rightarrow> string option \<Rightarrow> py_error + pyval" where
  "dispatch_toltec k =
     (if k = ''nwid'' \<or> k = ''obsid'' \<or> k = ''subobsid'' \<or> k = ''scanid'' then conv_int
      else if k = ''ut'' then conv_date strptime_toltec
      else conv_id)"

definition dispatch_wyatt :: "string \<Rightarrow> string option \<Rightarrow> py_error + pyval" where
  "dispatch_wyatt k =
     (if k = ''obsid'' \<or> k = ''subobsid'' \<or> k = ''scanid'' then conv_int
      else if k = ''ut'' then conv_date strptime_wyatt
      else conv_id)"

text \<open>
  The dictionary comprehension over \<open>m.groupdict().items()\<close>: the first converter that
  raises ends it.
\<close>

fun build_info ::
  "(string \<Rightarrow> string option \<Rightarrow> py_error + pyval) \<Rightarrow> groupdict \<Rightarrow> py_error + (string \<rightharpoonup> pyval)" where
  "build_info dispatch [] = Inr Map.empty"
| "build_info dispatch ((k, v) # items) =
     (case dispatch k v of
        Inl e \<Rightarrow> Inl e
      | Inr x \<Rightarrow>
          (case build_info dispatch items of
             Inl e \<Rightarrow> Inl e
           | Inr info \<Rightarrow> Inr ((map_of [(k, x)]) ++ info)))"

text \<open>Python's \<open>str.lower\<close> on ASCII text.\<close>

definition char_lower :: "char \<Rightarrow> char" where
  "char_lower c =
     (if 65 \<le> (of_char c :: nat) \<and> (of_char c :: nat) \<le> 90
      then char_of ((of_char c :: nat) + 32) else c)"

definition lower :: "string \<Rightarrow> string" where
  "lower s = map char_lower s"

text \<open>
  \<open>post_toltec\<close>: the key test \<open>'kindstr' not in info\<close>, then the test of the extension.
  Reading \<open>info['fileext']\<close> raises \<open>KeyError\<close> without the key and \<open>.lower()\<close> raises
  \<open>AttributeError\<close> on a value that is no string.
\<close>

definition post_toltec :: "(string \<rightharpoonup> pyval) \<Rightarrow> py_error + (string \<rightharpoonup> pyval)" where
  "post_toltec info =
     (let info1 = (if info ''kindstr'' = None then info(''kindstr'' \<mapsto> VStr ''timestream'')
                   else info)
      in case info1 ''fileext'' of
           None \<Rightarrow> Inl KeyError
         | Some (VStr ext) \<Rightarrow>
             if lower ext \<noteq> ''nc'' then Inr (info1(''kindstr'' \<mapsto> VStr ''ancillary''))
             else Inr info1
         | Some _ \<Rightarrow> Inl AttributeError)"

definition post_wyatt :: "(string \<rightharpoonup> pyval) \<Rightarrow> py_error + (string \<rightharpoonup> pyval)" where
  "post_wyatt info = Inr info"

text \<open>
  The loop over the two (pattern, dispatch, post) triples: the first pattern that matches
  decides; without a match the result is \<open>None\<close>.
\<close>

definition info_from_filename :: "string \<Rightarrow> py_error + (string \<rightharpoonup> pyval) option" where
  "info_from_filename filename =
     (case re_toltec_file filename of
        Some g \<Rightarrow>
          (case build_info dispatch_toltec g of
             Inl e \<Rightarrow> Inl e
           | Inr info \<Rightarrow> (case post_toltec info of Inl e \<Rightarrow> Inl e | Inr info' \<Rightarrow> Inr (Some info')))
      | None \<Rightarrow>
          (case re_wyatt_file filename of
             Some g \<Rightarrow>
               (case build_info dispatch_wyatt g of
                  Inl e \<Rightarrow> Inl e
                | Inr info \<Rightarrow> (case post_wyatt info of Inl e \<Rightarrow> Inl e | Inr info' \<Rightarrow> Inr (Some info')))
           | None \<Rightarrow> Inr None))"

section \<open>Exposure time of a run (\<open>SimulatorRuntime.run\<close>)\<close>

text \<open>
  The two parameter sections the run reads, with the fields of the source. A quantity is
  its value in SI units; the optional \<open>t_exp\<close> is \<open>None\<close> when unset.
\<close>

record ObsParamsConfig =
  t_exp :: "real option"
  f_smp_mapping :: real
  f_smp_probing :: real

record PerfParamsConfig =
  chunk_len :: real
  catalog_model_render_pixel_size :: real
  mapping_eval_interp_len :: "real option"
  mapping_erfa_interp_len :: real
  atm_eval_interp_alt_step :: real
  pre_run_setup_time_grid_size :: int
  anim_frame_rate :: real



section \<open>Depth map and outline of the coverage (\<open>Toltec.make_traj_data\<close>)\<close>










text \<open>
  The number of chunks on natural numbers, for the proofs: \<open>n_chunks_of\<close> on a
  non-negative sample count and a positive chunk size.
\<close>

definition chunk_count :: "nat \<Rightarrow> nat \<Rightarrow> nat" where
  "chunk_count N m = N div m + (if N mod m \<noteq> 0 then 1 else 0)"

section \<open>Verification: double precision rounding\<close>

text \<open>The binary exponent is computed by halving and doubling.\<close>

lemma bexp_code [code]:
  "bexp x = (if x = 0 then 0
             else if 2 \<le> \<bar>x\<bar> then bexp (x / 2) + 1
             else if \<bar>x\<bar> < 1 then bexp (2 * x) - 1
             else 0)"
proof -
  have a: "bexp (x / 2) + 1 = bexp x" if "x \<noteq> 0"
  proof -
    have "log 2 \<bar>x / 2\<bar> = log 2 \<bar>x\<bar> - 1"
      using that by (simp add: log_divide)
    then show ?thesis using that by (simp add: bexp_def)
  qed
  have b: "bexp (2 * x) - 1 = bexp x" if "x \<noteq> 0"
  proof -
    have "log 2 \<bar>2 * x\<bar> = 1 + log 2 \<bar>x\<bar>"
      using that by (simp add: abs_mult log_mult)
    then show ?thesis using that by (simp add: bexp_def)
  qed
  have c: "bexp x = 0" if "\<not> 2 \<le> \<bar>x\<bar>" "\<not> \<bar>x\<bar> < 1"
  proof -
    have "0 \<le> log 2 \<bar>x\<bar>" using that by simp
    moreover have "log 2 \<bar>x\<bar> < 1" using that by (simp add: log_less_iff)
    ultimately have "\<lfloor>log 2 \<bar>x\<bar>\<rfloor> = 0" by linarith
    then show ?thesis using that by (simp add: bexp_def)
  qed
  have d: "bexp 0 = 0" by (simp add: bexp_def)
  show ?thesis using a b c d by auto
qed

lemma bexp_bounds:
  assumes "x \<noteq> 0"
  shows "2 powi (bexp x) \<le> \<bar>x\<bar>" and "\<bar>x\<bar> < 2 powi (bexp x + 1)"
proof -
  have p: "0 < \<bar>x\<bar>" using assms by simp
  have "\<lfloor>log 2 \<bar>x\<bar>\<rfloor> = bexp x" using assms by (simp add: bexp_def)
  then have "2 powr real_of_int (bexp x) \<le> \<bar>x\<bar> \<and> \<bar>x\<bar> < 2 powr real_of_int (bexp x + 1)"
    using floor_log_eq_powr_iff [OF p, of 2 "bexp x"] by simp
  moreover have "(2::real) powr real_of_int k = 2 powi k" for k
    by (simp add: powr_real_of_int')
  ultimately show "2 powi (bexp x) \<le> \<bar>x\<bar>" and "\<bar>x\<bar> < 2 powi (bexp x + 1)"
    by (simp_all only:)
qed

lemma bexp_ge:
  assumes "2 powi k \<le> \<bar>x\<bar>"
  shows "k \<le> bexp x"
proof -
  have "0 < (2::real) powi k" by (simp add: zero_less_power_int)
  with assms have "0 < \<bar>x\<bar>" by linarith
  then have x: "x \<noteq> 0" by simp
  have "(2::real) powi k < 2 powi (bexp x + 1)"
    using assms bexp_bounds(2) [OF x] by linarith
  then have "k < bexp x + 1"
    by (metis not_less power_int_increasing one_le_numeral)
  then show ?thesis by simp
qed




lemma round_half_even_ge: "of_int k \<le> z \<Longrightarrow> k \<le> round_half_even z"
  unfolding round_half_even_def Let_def by (simp add: le_floor_iff; linarith)


lemma two_powi_pos: "0 < (2::real) powi k"
  by (simp add: zero_less_power_int)





lemma fl_lower:
  assumes "2 powi (- 1022) \<le> x"
  shows "2 powi (bexp x) \<le> fl x"
proof -
  have a: "2 powi (- 1022) \<le> \<bar>x\<bar>" using assms by simp
  have b: "- 1022 \<le> bexp x" by (rule bexp_ge [OF a])
  have "0 < x" using assms two_powi_pos [of "- 1022"] by linarith
  then have x: "x \<noteq> 0" "\<bar>x\<bar> = x" by simp_all
  let ?e = "bexp x - 52"
  have e: "max (bexp x) (- 1022) - 52 = ?e" using b by simp
  have p: "0 < (2::real) powi ?e" by (rule two_powi_pos)
  have s: "(2::real) powi (bexp x) = 2 ^ 52 * 2 powi ?e"
    by (simp add: power_int_diff)
  have "(2::real) ^ 52 * 2 powi ?e \<le> x" using bexp_bounds(1) [OF x(1)] x(2) s by simp
  then have "of_int (2 ^ 52) \<le> x / 2 powi ?e" using p by (simp add: pos_le_divide_eq)
  then have "2 ^ 52 \<le> round_half_even (x / 2 powi ?e)" by (rule round_half_even_ge)
  then have "(2::real) ^ 52 \<le> of_int (round_half_even (x / 2 powi ?e))"
    by (metis of_int_le_iff of_int_numeral of_int_power)
  then have "(2::real) ^ 52 * 2 powi ?e \<le> of_int (round_half_even (x / 2 powi ?e)) * 2 powi ?e"
    using p by (intro mult_right_mono) simp_all
  then show ?thesis unfolding fl_def Let_def e s .
qed

lemma fl_ge_one:
  assumes "1 \<le> x"
  shows "1 \<le> fl x"
proof -
  have o: "(2::real) powi (- 1022) \<le> 1"
    using power_int_increasing [of "- 1022" 0 "2::real"] by simp
  have "(2::real) powi 0 \<le> \<bar>x\<bar>" using assms by simp
  then have "0 \<le> bexp x" by (rule bexp_ge)
  then have "(2::real) powi 0 \<le> 2 powi (bexp x)" by (intro power_int_increasing) simp_all
  moreover have "2 powi (bexp x) \<le> fl x" using assms o by (intro fl_lower) linarith
  ultimately show ?thesis by simp
qed






section \<open>Verification: the time-chunk planner\<close>


lemma concat_take_drop:
  "concat (map (\<lambda>i. take n (drop (i * n) xs)) [0..<k]) = take (k * n) xs"
proof (induction k)
  case 0
  show ?case by simp
next
  case (Suc k)
  have "take (k * n + n) xs = take (k * n) xs @ take n (drop (k * n) xs)"
    by (rule take_add)
  moreover have "Suc k * n = k * n + n" by simp
  ultimately show ?case using Suc by (simp add: add.commute)
qed

lemma py_slice_chunk:
  assumes "0 < n"
  shows "py_slice t (int i * n) ((int i + 1) * n) = take (nat n) (drop (i * nat n) t)"
proof -
  obtain m where m: "n = int m" "0 < m"
    using assms by (metis zero_less_imp_eq_int)
  have "int i * n = int (i * m)" by (simp add: m)
  then have lo: "slice_bound (length t) (int i * n) = min (i * m) (length t)"
    unfolding slice_bound_def by (simp del: of_nat_mult of_nat_add)
  have "(int i + 1) * n = int ((i + 1) * m)" by (simp add: m algebra_simps)
  then have hi: "slice_bound (length t) ((int i + 1) * n) = min ((i + 1) * m) (length t)"
    unfolding slice_bound_def by (simp del: of_nat_mult of_nat_add)
  show ?thesis
  proof (cases "i * m < length t")
    case True
    then have "take (min ((i + 1) * m) (length t) - i * m) (drop (i * m) t) = take m (drop (i * m) t)"
      by (simp add: min_def)
    with True show ?thesis
      unfolding py_slice_def Let_def lo hi by (simp add: m min_def)
  next
    case False
    then show ?thesis
      unfolding py_slice_def Let_def lo hi by (simp add: m min_def)
  qed
qed

lemma split_chunks_pos:
  "0 < n \<Longrightarrow> split_chunks t n k = map (\<lambda>i. take (nat n) (drop (i * nat n) t)) [0..<nat k]"
  by (simp add: split_chunks_def py_slice_chunk)

lemma n_chunks_of_nat:
  "n_chunks_of (int N) (int m) = int (chunk_count N m)"
proof -
  have "int N div int m = int (N div m)" by (simp add: zdiv_int)
  moreover have "int N mod int m = int (N mod m)" by (simp add: zmod_int)
  ultimately show ?thesis
    unfolding n_chunks_of_def chunk_count_def by (simp del: of_nat_div of_nat_mod)
qed

lemma chunk_count_covers: "0 < m \<Longrightarrow> N \<le> chunk_count N m * m"
proof -
  assume m: "0 < m"
  have N: "N = N div m * m + N mod m" by simp
  show ?thesis
  proof (cases "N mod m = 0")
    case True
    with N show ?thesis by (simp add: chunk_count_def)
  next
    case False
    have "N mod m < m" using m by simp
    with N have "N \<le> N div m * m + m" by linarith
    then have "N \<le> (N div m + 1) * m" by (simp add: algebra_simps)
    with False show ?thesis by (simp add: chunk_count_def)
  qed
qed

lemma chunk_count_tight: "0 < m \<Longrightarrow> i < chunk_count N m \<Longrightarrow> i * m < N"
proof -
  assume m: "0 < m" and i: "i < chunk_count N m"
  have N: "N = N div m * m + N mod m" by simp
  show ?thesis
  proof (cases "N mod m = 0")
    case True
    with i have "Suc i \<le> N div m" by (simp add: chunk_count_def)
    then have "Suc i * m \<le> N div m * m" by (rule mult_le_mono1)
    with N True m show ?thesis by simp
  next
    case False
    with i have "i \<le> N div m" by (simp add: chunk_count_def)
    then have "i * m \<le> N div m * m" by (rule mult_le_mono1)
    with N False show ?thesis by linarith
  qed
qed

lemma chunk_count_pos: "0 < m \<Longrightarrow> 0 < N \<Longrightarrow> 0 < chunk_count N m"
  by (cases "N mod m = 0") (auto simp: chunk_count_def div_greater_zero_iff dest: dvd_imp_le)


lemma merge_last_chunk_snoc2:
  "merge_last_chunk k (ys @ [a, b]) =
     (if 2 \<le> k \<and> length b * 10 < length a then ys @ [a @ b] else ys @ [a, b])"
  by (simp add: merge_last_chunk_def nth_append butlast_append Let_def)

lemma two_last_decomp:
  assumes "2 \<le> length cs"
  shows "cs = butlast (butlast cs) @ [last (butlast cs), last cs]"
proof -
  from assms have "cs \<noteq> []" by auto
  then have 1: "cs = butlast cs @ [last cs]" by simp
  from assms have "butlast cs \<noteq> []" by (auto simp: length_0_conv [symmetric] simp del: length_0_conv)
  then have "butlast cs = butlast (butlast cs) @ [last (butlast cs)]" by simp
  with 1 show ?thesis by (metis append.assoc append_Cons append_Nil)
qed

lemma merge_last_chunk_cases:
  assumes "length cs = nat k"
  shows "merge_last_chunk k cs =
     (if 2 \<le> length cs \<and> length (last cs) * 10 < length (last (butlast cs))
      then butlast (butlast cs) @ [last (butlast cs) @ last cs] else cs)"
proof (cases "2 \<le> length cs")
  case True
  then have k: "2 \<le> k" using assms by linarith
  have "merge_last_chunk k (butlast (butlast cs) @ [last (butlast cs), last cs]) =
     (if length (last cs) * 10 < length (last (butlast cs))
      then butlast (butlast cs) @ [last (butlast cs) @ last cs]
      else butlast (butlast cs) @ [last (butlast cs), last cs])"
    using k by (simp only: merge_last_chunk_snoc2 simp_thms)
  with two_last_decomp [OF True] True show ?thesis by simp
next
  case False
  then have "\<not> 2 \<le> k" using assms by linarith
  with False show ?thesis by (simp add: merge_last_chunk_def)
qed



lemma merge_last_chunk_length:
  assumes "length cs = nat k"
  shows "length (merge_last_chunk k cs) =
     (if 2 \<le> length cs \<and> length (last cs) * 10 < length (last (butlast cs))
      then length cs - 1 else length cs)"
  by (auto simp: merge_last_chunk_cases [OF assms])

lemma length_np_arange: "length (np_arange start stop step) = arange_length start stop step"
  by (simp add: np_arange_def Let_def)






lemma n_chunks_of_neg:
  assumes "n < 0" and "0 \<le> N"
  shows "n_chunks_of N n \<le> 0"
proof (cases "N mod n = 0")
  case True
  then show ?thesis using assms by (simp add: n_chunks_of_def div_nonneg_neg_le0)
next
  case False
  have d: "N div n \<le> 0" using assms by (simp add: div_nonneg_neg_le0)
  have "N div n \<noteq> 0"
  proof
    assume z: "N div n = 0"
    have "N = n * (N div n) + N mod n" by simp
    with z have "N = N mod n" by simp
    moreover have "N mod n \<le> 0" using assms(1) by simp
    ultimately have "N = 0" using assms(2) by linarith
    with False show False by simp
  qed
  with d have "N div n \<le> - 1" by linarith
  with False show ?thesis by (simp add: n_chunks_of_def)
qed

text \<open>What the planner computes when the chunk size is positive.\<close>

lemma planner_core:
  fixes t_exp f_smp chunk_len :: real
  assumes p: "0 < py_int (fl (chunk_len * f_smp))"
  defines "t \<equiv> np_arange 0 t_exp (fl (1 / f_smp))"
  defines "m \<equiv> nat (py_int (fl (chunk_len * f_smp)))"
  defines "cs \<equiv> map (\<lambda>i. take m (drop (i * m) t)) [0..<chunk_count (length t) m]"
  shows "naive_chunks t_exp f_smp chunk_len = Inr cs"
    and "make_time_chunks t_exp f_smp chunk_len = Inr (merge_last_chunk (int (length cs)) cs)"
    and "concat cs = t" and "[] \<notin> set cs" and "0 < m" and "length cs = chunk_count (length t) m"
proof -
  from p show m: "0 < m" by (simp add: m_def)
  have pm: "py_int (fl (chunk_len * f_smp)) = int m" using p by (simp add: m_def)
  have k: "n_chunks_of (int (length t)) (py_int (fl (chunk_len * f_smp))) = int (chunk_count (length t) m)"
    by (simp only: pm n_chunks_of_nat)
  have sp: "split_chunks t (py_int (fl (chunk_len * f_smp)))
        (n_chunks_of (int (length t)) (py_int (fl (chunk_len * f_smp)))) = cs"
    using p by (simp add: split_chunks_pos k cs_def m_def)
  have len: "int (length cs) = n_chunks_of (int (length t)) (py_int (fl (chunk_len * f_smp)))"
    by (simp add: k cs_def)
  show "length cs = chunk_count (length t) m" by (simp add: cs_def)
  show "naive_chunks t_exp f_smp chunk_len = Inr cs"
    using p sp by (simp add: naive_chunks_def Let_def t_def)
  show "make_time_chunks t_exp f_smp chunk_len = Inr (merge_last_chunk (int (length cs)) cs)"
    using p sp len by (simp add: make_time_chunks_def Let_def t_def)
  have "concat cs = take (chunk_count (length t) m * m) t"
    unfolding cs_def by (rule concat_take_drop)
  then show "concat cs = t" using chunk_count_covers [OF m, of "length t"] by simp
  show "[] \<notin> set cs"
  proof
    assume "[] \<in> set cs"
    then obtain i where i: "i < chunk_count (length t) m" and e: "take m (drop (i * m) t) = []"
      by (auto simp: cs_def)
    from chunk_count_tight [OF m i] have "i * m < length t" .
    with e m show False by simp
  qed
qed







lemma naive_chunks_two:
  fixes t_exp f_smp chunk_len :: real
  assumes n: "naive_chunks t_exp f_smp chunk_len = Inr cs" and l: "2 \<le> length cs"
  shows "0 < py_int (fl (chunk_len * f_smp))"
proof (rule ccontr)
  assume "\<not> 0 < py_int (fl (chunk_len * f_smp))"
  moreover from n have nz: "py_int (fl (chunk_len * f_smp)) \<noteq> 0"
    by (auto simp: naive_chunks_def Let_def split: if_splits)
  ultimately have neg: "py_int (fl (chunk_len * f_smp)) < 0" by simp
  have "n_chunks_of (int (length (np_arange 0 t_exp (fl (1 / f_smp))))) (py_int (fl (chunk_len * f_smp))) \<le> 0"
    by (rule n_chunks_of_neg [OF neg]) simp
  then have "split_chunks (np_arange 0 t_exp (fl (1 / f_smp))) (py_int (fl (chunk_len * f_smp)))
     (n_chunks_of (int (length (np_arange 0 t_exp (fl (1 / f_smp))))) (py_int (fl (chunk_len * f_smp)))) = []"
    by (simp add: split_chunks_def)
  with n nz have "cs = []" by (simp add: naive_chunks_def Let_def)
  with l show False by simp
qed

text \<open>
  Claim C2, as amended. When the naive split has at least two chunks, its last chunk has
  exactly one sample and the chunk before it has more than ten samples, the planner
  returns the naive split with its last two chunks concatenated into one: one chunk fewer.
\<close>

theorem merge_rule:
  fixes t_exp f_smp chunk_len :: real
  assumes "naive_chunks t_exp f_smp chunk_len = Inr cs"
    and "2 \<le> length cs"
    and "length (last cs) = 1"
    and "10 < length (last (butlast cs))"
  shows "make_time_chunks t_exp f_smp chunk_len
           = Inr (butlast (butlast cs) @ [last (butlast cs) @ last cs])
         \<and> length (butlast (butlast cs) @ [last (butlast cs) @ last cs]) = length cs - 1"
proof -
  have p: "0 < py_int (fl (chunk_len * f_smp))" by (rule naive_chunks_two [OF assms(1,2)])
  let ?m = "nat (py_int (fl (chunk_len * f_smp)))"
  let ?t = "np_arange 0 t_exp (fl (1 / f_smp))"
  let ?cs = "map (\<lambda>i. take ?m (drop (i * ?m) ?t)) [0..<chunk_count (length ?t) ?m]"
  have "cs = ?cs" using planner_core(1) [OF p, of t_exp] assms(1) by simp
  then have r: "make_time_chunks t_exp f_smp chunk_len = Inr (merge_last_chunk (int (length cs)) cs)"
    using planner_core(2) [OF p, of t_exp] by simp
  have l: "length cs = nat (int (length cs))" by simp
  have "merge_last_chunk (int (length cs)) cs = butlast (butlast cs) @ [last (butlast cs) @ last cs]"
    using assms(2,3,4) by (simp add: merge_last_chunk_cases [OF l])
  with r assms(2) show ?thesis by auto
qed

text \<open>The merge of C2 at \<open>t_exp = 12\<close>, \<open>f_smp = 1\<close>, \<open>chunk_len = 11\<close>: chunks of 11 and 1.\<close>

theorem merge_rule_witness:
  "naive_chunks 12 1 11 = Inr [[0,1,2,3,4,5,6,7,8,9,10],[11]]
   \<and> make_time_chunks 12 1 11 = Inr [[0,1,2,3,4,5,6,7,8,9,10,11]]"
proof -
  have n: "naive_chunks 12 1 11 = Inr [[0,1,2,3,4,5,6,7,8,9,10],[11]]" by code_simp
  from merge_rule [OF n] show ?thesis using n by simp
qed

text \<open>
  Claim C2 as stated fails at a second-to-last chunk of exactly ten samples: with
  \<open>t_exp = 11\<close>, \<open>f_smp = 1\<close>, \<open>chunk_len = 10\<close> the naive chunks of 10 and 1 samples are
  returned unmerged, since \<open>1 * 10 < 10\<close> is false.
\<close>

theorem merge_rule_counterexample:
  "naive_chunks 11 1 10 = Inr [[0,1,2,3,4,5,6,7,8,9],[10]]
   \<and> make_time_chunks 11 1 10 = Inr [[0,1,2,3,4,5,6,7,8,9],[10]]"
  by code_simp



section \<open>Verification: the file name classifier\<close>

lemma digits_plus_Some:
  assumes "digits_plus s = Some (d, r)"
  shows "d \<noteq> []" and "list_all is_digit d"
proof -
  from assms have d: "d = takeWhile is_digit s" and n: "takeWhile is_digit s \<noteq> []"
    by (auto simp: digits_plus_def split: if_splits)
  from d n show "d \<noteq> []" by simp
  show "list_all is_digit d" unfolding d list_all_iff by (auto dest: set_takeWhileD)
qed

lemma py_int_str_digits:
  assumes "digits_plus s = Some (d, r)"
  shows "py_int_str d = Inr (int (nat_of_digits d))"
  using digits_plus_Some [OF assms] by (simp add: py_int_str_def)

lemma fixed_shape_Some:
  assumes "fixed_shape sh s = Some (u, r)"
  shows "fixed_shape sh u = Some (u, [])"
proof -
  from assms have u: "u = take (length sh) s" and l: "length sh \<le> length s"
    and a: "list_all2 shape_char sh (take (length sh) s)"
    by (auto simp: fixed_shape_def split: if_splits)
  from l have "length u = length sh" by (simp add: u)
  with a show ?thesis by (simp add: fixed_shape_def u)
qed

lemma ext_end_Some: "ext_end s = Some e \<Longrightarrow> e \<noteq> []"
  by (auto simp: ext_end_def split: if_splits)

lemma bindE:
  assumes "Option.bind m f = Some y"
  obtains x where "m = Some x" and "f x = Some y"
  using assms by (cases m) auto

lemma re_toltec_file_shape:
  assumes "re_toltec_file filename = Some g"
  obtains nwid obsid subobsid scanid ut kind ext s1 s2 s3 s4 s5 s6 s7 s8 s9 s10 s12 where
    "digits_plus s1 = Some (nwid, s2)" and "digits_plus s3 = Some (obsid, s4)"
    and "digits_plus s5 = Some (subobsid, s6)" and "digits_plus s7 = Some (scanid, s8)"
    and "fixed_shape ''dddd_dd_dd_dd_dd_dd'' s9 = Some (ut, s10)"
    and "ext_end s12 = Some ext"
    and "g = [(''interface'', Some (''toltec'' @ nwid)), (''instru'', Some ''toltec''),
          (''nwid'', Some nwid), (''obsid'', Some obsid), (''subobsid'', Some subobsid),
          (''scanid'', Some scanid), (''ut'', Some ut), (''kindstr'', kind),
          (''fileext'', Some ext)]"
  using assms unfolding re_toltec_file_def
  by (auto simp: bind_eq_Some_conv split: prod.splits)


lemma takeWhile_run:
  assumes "list_all P d" and "\<not> P c"
  shows "takeWhile P (d @ c # r) = d" and "dropWhile P (d @ c # r) = c # r"
  using assms by (induction d) simp_all

lemma not_digit_underscore: "\<not> is_digit CHR ''_''"
  by (simp add: is_digit_def)

lemma digits_plus_run:
  assumes "d \<noteq> []" and "list_all is_digit d"
  shows "digits_plus (d @ CHR ''_'' # r) = Some (d, CHR ''_'' # r)"
  using assms takeWhile_run [OF assms(2) not_digit_underscore, of r]
  by (simp add: digits_plus_def)

lemma lit_cons: "lit [c] (c # r) = Some r"
  by (simp add: lit_def)

lemma fixed_shape_run:
  assumes "list_all2 shape_char sh u"
  shows "fixed_shape sh (u @ r) = Some (u, r)"
proof -
  from assms have "length sh = length u" by (rule list_all2_lengthD)
  with assms show ?thesis by (simp add: fixed_shape_def)
qed

lemma opt_kind_none: "opt_kind (CHR ''.'' # r) = Some (None, CHR ''.'' # r)"
  by (simp add: opt_kind_def)

lemma opt_kind_some:
  assumes "k \<noteq> []" and "list_all kind_char k"
  shows "opt_kind (CHR ''_'' # k @ CHR ''.'' # r) = Some (Some k, CHR ''.'' # r)"
proof -
  have "\<not> kind_char CHR ''.''" by (simp add: kind_char_def)
  from takeWhile_run [OF assms(2) this, of r] assms(1) show ?thesis
    by (simp add: opt_kind_def)
qed

lemma ext_end_run:
  assumes "ext \<noteq> []" and "list_all not_newline ext" and "nl = [] \<or> nl = [CHR 0x0A]"
  shows "ext_end (ext @ nl) = Some ext"
proof -
  have n: "\<not> not_newline (CHR 0x0A)" by (simp add: not_newline_def)
  from assms(3) show ?thesis
  proof
    assume "nl = []"
    moreover have "takeWhile not_newline ext = ext" "dropWhile not_newline ext = []"
      using assms(2) by (simp_all add: list_all_iff)
    ultimately show ?thesis using assms(1) by (simp add: ext_end_def del: takeWhile_eq_all_conv)
  next
    assume "nl = [CHR 0x0A]"
    with takeWhile_run [OF assms(2) n, of "[]"] assms(1) show ?thesis
      by (simp add: ext_end_def)
  qed
qed


lemma lit_inv: "lit p s = Some r \<Longrightarrow> s = p @ r"
  by (auto simp: lit_def split: if_splits) (metis append_take_drop_id)

lemma digits_plus_inv:
  assumes "digits_plus s = Some (d, r)"
  shows "s = d @ r" and "d \<noteq> []" and "list_all is_digit d"
proof -
  from assms have d: "d = takeWhile is_digit s" and r: "r = dropWhile is_digit s"
    by (auto simp: digits_plus_def split: if_splits)
  show "s = d @ r" by (simp add: d r)
  show "d \<noteq> []" "list_all is_digit d" by (rule digits_plus_Some [OF assms])+
qed

lemma fixed_shape_inv:
  assumes "fixed_shape sh s = Some (u, r)"
  shows "s = u @ r" and "list_all2 shape_char sh u"
  using assms by (auto simp: fixed_shape_def split: if_splits)

lemma opt_kind_inv:
  assumes "opt_kind s = Some (kind, r)"
  shows "s = (case kind of None \<Rightarrow> [] | Some k \<Rightarrow> ''_'' @ k) @ r"
    and "case kind of None \<Rightarrow> True | Some k \<Rightarrow> k \<noteq> [] \<and> list_all kind_char k"
  using assms
  by (auto simp: opt_kind_def list_all_iff split: list.splits if_splits dest: set_takeWhileD)

lemma ext_end_inv:
  assumes "ext_end s = Some e"
  shows "\<exists>nl. s = e @ nl \<and> e \<noteq> [] \<and> list_all not_newline e \<and> (nl = [] \<or> nl = [CHR 0x0A])"
proof -
  from assms have e: "e = takeWhile not_newline s" and n: "e \<noteq> []"
    and d: "dropWhile not_newline s = [] \<or> dropWhile not_newline s = [CHR 0x0A]"
    by (auto simp: ext_end_def split: if_splits)
  have "s = e @ dropWhile not_newline s" by (simp add: e)
  moreover have "list_all not_newline e"
    unfolding e list_all_iff by (auto dest: set_takeWhileD)
  ultimately show ?thesis using n d by blast
qed


lemma pattern_imp_match:
  assumes "toltec_pattern filename g"
  shows "re_toltec_file filename = Some g"
proof -
  from assms obtain nwid obsid subobsid scanid ut kind ext nl where
    f: "filename = ''toltec'' @ nwid @ ''_'' @ obsid @ ''_'' @ subobsid @ ''_'' @ scanid @ ''_''
                   @ ut @ (case kind of None \<Rightarrow> [] | Some k \<Rightarrow> ''_'' @ k) @ ''.'' @ ext @ nl"
    and d: "nwid \<noteq> []" "list_all is_digit nwid" "obsid \<noteq> []" "list_all is_digit obsid"
       "subobsid \<noteq> []" "list_all is_digit subobsid" "scanid \<noteq> []" "list_all is_digit scanid"
    and u: "list_all2 shape_char ''dddd_dd_dd_dd_dd_dd'' ut"
    and k: "case kind of None \<Rightarrow> True | Some k \<Rightarrow> k \<noteq> [] \<and> list_all kind_char k"
    and e: "ext \<noteq> []" "list_all not_newline ext" "nl = [] \<or> nl = [CHR 0x0A]"
    and g: "g = [(''interface'', Some (''toltec'' @ nwid)), (''instru'', Some ''toltec''),
                (''nwid'', Some nwid), (''obsid'', Some obsid), (''subobsid'', Some subobsid),
                (''scanid'', Some scanid), (''ut'', Some ut), (''kindstr'', kind),
                (''fileext'', Some ext)]"
    unfolding toltec_pattern_def by blast
  note runs = digits_plus_run [OF d(1,2)] digits_plus_run [OF d(3,4)]
    digits_plus_run [OF d(5,6)] digits_plus_run [OF d(7,8)]
    fixed_shape_run [OF u] ext_end_run [OF e]
  show ?thesis
  proof (cases kind)
    case None
    show ?thesis
      unfolding re_toltec_file_def f g None
      by (simp add: lit_def runs opt_kind_none)
  next
    case (Some kk)
    with k have "kk \<noteq> []" "list_all kind_char kk" by simp_all
    note ok = opt_kind_some [OF this]
    show ?thesis
      unfolding re_toltec_file_def f g Some
      by (simp add: lit_def runs ok)
  qed
qed

lemma match_imp_pattern:
  assumes "re_toltec_file filename = Some g"
  shows "toltec_pattern filename g"
proof -
  from assms obtain s1 nwid s2 s3 obsid s4 s5 subobsid s6 s7 scanid s8 s9 ut s10 kind s11 s12 ext
    where l1: "lit ''toltec'' filename = Some s1" and d1: "digits_plus s1 = Some (nwid, s2)"
      and l2: "lit ''_'' s2 = Some s3" and d2: "digits_plus s3 = Some (obsid, s4)"
      and l3: "lit ''_'' s4 = Some s5" and d3: "digits_plus s5 = Some (subobsid, s6)"
      and l4: "lit ''_'' s6 = Some s7" and d4: "digits_plus s7 = Some (scanid, s8)"
      and l5: "lit ''_'' s8 = Some s9"
      and u: "fixed_shape ''dddd_dd_dd_dd_dd_dd'' s9 = Some (ut, s10)"
      and k: "opt_kind s10 = Some (kind, s11)"
      and l6: "lit ''.'' s11 = Some s12" and e: "ext_end s12 = Some ext"
      and g: "g = [(''interface'', Some (''toltec'' @ nwid)), (''instru'', Some ''toltec''),
                (''nwid'', Some nwid), (''obsid'', Some obsid), (''subobsid'', Some subobsid),
                (''scanid'', Some scanid), (''ut'', Some ut), (''kindstr'', kind),
                (''fileext'', Some ext)]"
    unfolding re_toltec_file_def by (auto simp: bind_eq_Some_conv)
  from ext_end_inv [OF e] obtain nl where
    n: "s12 = ext @ nl" "ext \<noteq> []" "list_all not_newline ext" "nl = [] \<or> nl = [CHR 0x0A]"
    by blast
  have "filename = ''toltec'' @ nwid @ ''_'' @ obsid @ ''_'' @ subobsid @ ''_'' @ scanid @ ''_''
                   @ ut @ (case kind of None \<Rightarrow> [] | Some k \<Rightarrow> ''_'' @ k) @ ''.'' @ ext @ nl"
    unfolding lit_inv [OF l1] digits_plus_inv(1) [OF d1] lit_inv [OF l2]
      digits_plus_inv(1) [OF d2] lit_inv [OF l3] digits_plus_inv(1) [OF d3] lit_inv [OF l4]
      digits_plus_inv(1) [OF d4] lit_inv [OF l5] fixed_shape_inv(1) [OF u]
      opt_kind_inv(1) [OF k] lit_inv [OF l6] n(1)
    by simp
  with digits_plus_inv(2,3) [OF d1] digits_plus_inv(2,3) [OF d2] digits_plus_inv(2,3) [OF d3]
    digits_plus_inv(2,3) [OF d4] fixed_shape_inv(2) [OF u] opt_kind_inv(2) [OF k] n(2,3,4) g
  show ?thesis
    unfolding toltec_pattern_def by blast
qed

lemma re_toltec_file_iff: "re_toltec_file filename = Some g \<longleftrightarrow> toltec_pattern filename g"
  using pattern_imp_match match_imp_pattern by blast

lemma toltec_classified:
  assumes m: "re_toltec_file filename = Some g"
    and u: "map_of g ''ut'' = Some (Some u)" and dt: "strptime_toltec u = Inr dt"
  obtains info nwid obsid subobsid scanid kind ext where
    "map_of g ''nwid'' = Some (Some nwid)" and "map_of g ''obsid'' = Some (Some obsid)"
    and "map_of g ''subobsid'' = Some (Some subobsid)"
    and "map_of g ''scanid'' = Some (Some scanid)"
    and "map_of g ''kindstr'' = Some kind" and "map_of g ''fileext'' = Some (Some ext)"
    and "info_from_filename filename = Inr (Some info)"
    and "info ''nwid'' = Some (VInt (int (nat_of_digits nwid)))"
    and "info ''obsid'' = Some (VInt (int (nat_of_digits obsid)))"
    and "info ''subobsid'' = Some (VInt (int (nat_of_digits subobsid)))"
    and "info ''scanid'' = Some (VInt (int (nat_of_digits scanid)))"
    and "info ''ut'' = Some (VDate dt)"
    and "info ''fileext'' = Some (VStr ext)"
    and "info ''kindstr'' =
           Some (if lower ext \<noteq> ''nc'' then VStr ''ancillary''
                 else (case kind of None \<Rightarrow> VNone | Some k \<Rightarrow> VStr k))"
proof -
  from m obtain nwid obsid subobsid scanid ut kind ext s1 s2 s3 s4 s5 s6 s7 s8 s9 s10 s12 where
    d: "digits_plus s1 = Some (nwid, s2)" "digits_plus s3 = Some (obsid, s4)"
       "digits_plus s5 = Some (subobsid, s6)" "digits_plus s7 = Some (scanid, s8)"
    and g: "g = [(''interface'', Some (''toltec'' @ nwid)), (''instru'', Some ''toltec''),
          (''nwid'', Some nwid), (''obsid'', Some obsid), (''subobsid'', Some subobsid),
          (''scanid'', Some scanid), (''ut'', Some ut), (''kindstr'', kind),
          (''fileext'', Some ext)]"
    by (rule re_toltec_file_shape)
  from u have ut: "ut = u" by (simp add: g)
  note i = d [THEN py_int_str_digits]
  let ?k = "case kind of None \<Rightarrow> VNone | Some k \<Rightarrow> VStr k"
  define info0 where "info0 = [''interface'' \<mapsto> VStr (''toltec'' @ nwid),
      ''instru'' \<mapsto> VStr ''toltec'', ''nwid'' \<mapsto> VInt (int (nat_of_digits nwid)),
      ''obsid'' \<mapsto> VInt (int (nat_of_digits obsid)),
      ''subobsid'' \<mapsto> VInt (int (nat_of_digits subobsid)),
      ''scanid'' \<mapsto> VInt (int (nat_of_digits scanid)), ''ut'' \<mapsto> VDate dt,
      ''kindstr'' \<mapsto> ?k, ''fileext'' \<mapsto> VStr ext]"
  have b: "build_info dispatch_toltec g = Inr info0"
    unfolding g ut info0_def
    by (rule arg_cong [where f = Inr] | simp add: dispatch_toltec_def conv_int_def conv_date_def
        conv_id_def i dt fun_eq_iff map_add_def split: option.splits)+
  have k: "info0 ''kindstr'' = Some ?k" "info0 ''fileext'' = Some (VStr ext)"
    by (simp_all add: info0_def)
  define info where "info = (if lower ext \<noteq> ''nc'' then info0(''kindstr'' \<mapsto> VStr ''ancillary'')
     else info0)"
  have p: "post_toltec info0 = Inr info"
    using k by (simp add: post_toltec_def info_def Let_def)
  have r: "info_from_filename filename = Inr (Some info)"
    by (simp add: info_from_filename_def m b p)
  show ?thesis
  proof (rule that [of nwid obsid subobsid scanid kind ext info])
    show "info_from_filename filename = Inr (Some info)" by (rule r)
  qed (simp_all add: g info_def info0_def)
qed


text \<open>
  Claim C9, as amended. For every file name that matches the TolTEC pattern, whose time
  stamp is a date and time that exists and whose extension is not \<open>nc\<close> (ignoring case),
  the classifier returns a record with \<open>kindstr = "ancillary"\<close>, whether or not the name
  carries a kind of its own: an explicit kind is overridden.
\<close>

theorem nonprimary_overrides_kind:
  assumes "toltec_pattern filename g"
    and "map_of g ''ut'' = Some (Some u)" and "strptime_toltec u = Inr dt"
    and "map_of g ''fileext'' = Some (Some ext)" and "lower ext \<noteq> ''nc''"
  shows "\<exists>info. info_from_filename filename = Inr (Some info)
            \<and> info ''kindstr'' = Some (VStr ''ancillary'')"
proof -
  from pattern_imp_match [OF assms(1)] assms(2,3) obtain info kind ext' where
    e: "map_of g ''fileext'' = Some (Some ext')"
    and r: "info_from_filename filename = Inr (Some info)"
    and k: "info ''kindstr'' =
           Some (if lower ext' \<noteq> ''nc'' then VStr ''ancillary''
                 else (case kind of None \<Rightarrow> VNone | Some k \<Rightarrow> VStr k))"
    by (rule toltec_classified)
  from e assms(4) have "ext' = ext" by simp
  with k assms(5) have "info ''kindstr'' = Some (VStr ''ancillary'')" by simp
  with r show ?thesis by blast
qed

text \<open>C9 at a name with the explicit kind \<open>tune\<close> and the extension \<open>txt\<close>.\<close>

theorem nonprimary_overrides_kind_witness:
  "toltec_pattern ''toltec11_0012_2_3_2020_01_02_03_04_05_tune.txt''
          [(''interface'', Some ''toltec11''), (''instru'', Some ''toltec''),
           (''nwid'', Some ''11''), (''obsid'', Some ''0012''), (''subobsid'', Some ''2''),
           (''scanid'', Some ''3''), (''ut'', Some ''2020_01_02_03_04_05''),
           (''kindstr'', Some ''tune''), (''fileext'', Some ''txt'')]
   \<and> strptime_toltec ''2020_01_02_03_04_05''
       = Inr \<lparr>year = 2020, month = 1, day = 2, hour = 3, minute = 4, second = 5\<rparr>
   \<and> lower ''txt'' \<noteq> ''nc''
   \<and> (\<exists>info. info_from_filename ''toltec11_0012_2_3_2020_01_02_03_04_05_tune.txt''
                 = Inr (Some info)
              \<and> info ''kindstr'' = Some (VStr ''ancillary''))"
proof -
  have m: "re_toltec_file ''toltec11_0012_2_3_2020_01_02_03_04_05_tune.txt'' =
     Some [(''interface'', Some ''toltec11''), (''instru'', Some ''toltec''),
           (''nwid'', Some ''11''), (''obsid'', Some ''0012''), (''subobsid'', Some ''2''),
           (''scanid'', Some ''3''), (''ut'', Some ''2020_01_02_03_04_05''),
           (''kindstr'', Some ''tune''), (''fileext'', Some ''txt'')]"
    by code_simp
  have d: "strptime_toltec ''2020_01_02_03_04_05''
       = Inr \<lparr>year = 2020, month = 1, day = 2, hour = 3, minute = 4, second = 5\<rparr>"
    by code_simp
  have l: "lower ''txt'' \<noteq> ''nc''" by code_simp
  note p = match_imp_pattern [OF m]
  from nonprimary_overrides_kind [OF p _ d _ l] p d l show ?thesis by simp
qed

text \<open>
  Claim C9 as stated fails for a name that matches the pattern with a time stamp that is
  no date (month 13): the conversion of the \<open>ut\<close> group raises \<open>ValueError\<close> and no
  record is returned.
\<close>

theorem invalid_date_counterexample:
  "toltec_pattern ''toltec11_0012_2_3_2020_13_02_03_04_05_tune.txt''
          [(''interface'', Some ''toltec11''), (''instru'', Some ''toltec''),
           (''nwid'', Some ''11''), (''obsid'', Some ''0012''), (''subobsid'', Some ''2''),
           (''scanid'', Some ''3''), (''ut'', Some ''2020_13_02_03_04_05''),
           (''kindstr'', Some ''tune''), (''fileext'', Some ''txt'')]
   \<and> info_from_filename ''toltec11_0012_2_3_2020_13_02_03_04_05_tune.txt'' = Inl ValueError"
proof -
  have m: "re_toltec_file ''toltec11_0012_2_3_2020_13_02_03_04_05_tune.txt'' =
     Some [(''interface'', Some ''toltec11''), (''instru'', Some ''toltec''),
           (''nwid'', Some ''11''), (''obsid'', Some ''0012''), (''subobsid'', Some ''2''),
           (''scanid'', Some ''3''), (''ut'', Some ''2020_13_02_03_04_05''),
           (''kindstr'', Some ''tune''), (''fileext'', Some ''txt'')]"
    by code_simp
  have i: "py_int_str ''11'' = Inr 11" "py_int_str ''0012'' = Inr 12"
    "py_int_str ''2'' = Inr 2" "py_int_str ''3'' = Inr 3"
    by code_simp+
  have d: "strptime_toltec ''2020_13_02_03_04_05'' = Inl ValueError" by code_simp
  have "info_from_filename ''toltec11_0012_2_3_2020_13_02_03_04_05_tune.txt'' = Inl ValueError"
    unfolding info_from_filename_def m
    by (simp add: dispatch_toltec_def conv_int_def conv_date_def conv_id_def i d)
  with match_imp_pattern [OF m] show ?thesis by simp
qed

text \<open>
  Claim C3 at the name \<open>toltec0_1_2_3_2020_01_02_03_04_05.nc\<close>, with no kind and the
  extension \<open>nc\<close>: the integer fields are the integers of the matched texts, but
  \<open>kindstr\<close> is \<open>None\<close>, not \<open>"timestream"\<close>. The group dictionary holds the key
  \<open>kindstr\<close> (with \<open>None\<close>) also when the group is absent, so the default of
  \<open>post_toltec\<close> is never applied.
\<close>

theorem kind_default_not_applied:
  "\<exists>info. info_from_filename ''toltec0_1_2_3_2020_01_02_03_04_05.nc'' = Inr (Some info)
      \<and> info ''kindstr'' = Some VNone
      \<and> info ''kindstr'' \<noteq> Some (VStr ''timestream'')
      \<and> info ''fileext'' = Some (VStr ''nc'')
      \<and> info ''nwid'' = Some (VInt 0) \<and> info ''obsid'' = Some (VInt 1)
      \<and> info ''subobsid'' = Some (VInt 2) \<and> info ''scanid'' = Some (VInt 3)"
proof -
  have m: "re_toltec_file ''toltec0_1_2_3_2020_01_02_03_04_05.nc'' =
     Some [(''interface'', Some ''toltec0''), (''instru'', Some ''toltec''),
           (''nwid'', Some ''0''), (''obsid'', Some ''1''), (''subobsid'', Some ''2''),
           (''scanid'', Some ''3''), (''ut'', Some ''2020_01_02_03_04_05''),
           (''kindstr'', None), (''fileext'', Some ''nc'')]"
    by code_simp
  have d: "strptime_toltec ''2020_01_02_03_04_05''
       = Inr \<lparr>year = 2020, month = 1, day = 2, hour = 3, minute = 4, second = 5\<rparr>"
    by code_simp
  have n: "nat_of_digits ''0'' = 0" "nat_of_digits ''1'' = 1" "nat_of_digits ''2'' = 2"
    "nat_of_digits ''3'' = 3" "lower ''nc'' = ''nc''"
    by code_simp+
  have u: "map_of [(''interface'', Some ''toltec0''), (''instru'', Some ''toltec''),
           (''nwid'', Some ''0''), (''obsid'', Some ''1''), (''subobsid'', Some ''2''),
           (''scanid'', Some ''3''), (''ut'', Some ''2020_01_02_03_04_05''),
           (''kindstr'', None), (''fileext'', Some ''nc'')] ''ut''
         = Some (Some ''2020_01_02_03_04_05'')"
    by simp
  from m u d show ?thesis
    by (rule toltec_classified) (auto simp: n)
qed

section \<open>Verification: exposure time, depth map and outline\<close>


















end
